theory Spec2Isabelle
  imports Complex_Main "HOL-Library.Monad_Syntax" "HOL-Library.AList"
begin

section \<open>JavaScript numbers\<close>

text \<open>
  The component \<open>ImageProcessor.tsx\<close> computes with JavaScript numbers, that is IEEE 754
  doubles. Every finite double is a rational number, so finite numbers are values of type
  \<open>rat\<close>. Comparison, \<open>Math.max\<close> and \<open>Math.round\<close> are exact on doubles. Division and
  multiplication round their exact result to a double: this rounding is the parameter
  \<open>fl\<close> of the model, and \<open>double_rounding\<close> states the two properties of
  round-to-nearest that the proofs use: it is monotone, and in the range of normal doubles
  its relative error is at most \<open>2\<^sup>-\<^sup>5\<^sup>3\<close>. Division by zero gives \<open>Infinity\<close> or \<open>NaN\<close> in
  JavaScript; the model has no such values and returns \<open>None\<close> there.
\<close>

type_synonym rounding = "rat \<Rightarrow> rat"

definition double_rounding :: "rounding \<Rightarrow> bool" where
  "double_rounding fl \<longleftrightarrow>
     (\<forall>x y. x \<le> y \<longrightarrow> fl x \<le> fl y) \<and>
     (\<forall>x. 1 / 2 ^ 1022 \<le> x \<and> x \<le> 2 ^ 1023 \<longrightarrow> \<bar>fl x - x\<bar> \<le> x / 2 ^ 53)"

definition js_div :: "rounding \<Rightarrow> rat \<Rightarrow> rat \<Rightarrow> rat option" where
  "js_div fl a b = (if b = 0 then None else Some (fl (a / b)))"

definition js_mul :: "rounding \<Rightarrow> rat \<Rightarrow> rat \<Rightarrow> rat" where
  "js_mul fl a b = fl (a * b)"

text \<open>\<open>Math.round\<close> gives the nearest integer, a tie going towards \<open>+\<infinity>\<close>.\<close>

definition Math_round :: "rat \<Rightarrow> int" where
  "Math_round x = \<lfloor>x + 1 / 2\<rfloor>"

section \<open>The dimension computation of \<open>processImage\<close>\<close>

text \<open>
  Lines 67 to 86 of \<open>ImageProcessor.tsx\<close>, inside the \<open>onload\<close> handler of \<open>processImage\<close>:
  \<^verbatim>\<open>
  let { width, height } = img;
  const aspectRatio = width / height;
  let targetWidth = width;
  let targetHeight = height;
  if (targetWidth > currentMaxWidth) {
      targetWidth = currentMaxWidth;
      targetHeight = targetWidth / aspectRatio;
  }
  if (targetHeight > currentMaxHeight) {
      targetHeight = currentMaxHeight;
      targetWidth = targetHeight * aspectRatio;
  }
  const finalWidth = Math.max(1, Math.round(targetWidth));
  const finalHeight = Math.max(1, Math.round(targetHeight));
  \<close>
  \<open>img.width\<close> and \<open>img.height\<close> are of the DOM type \<open>unsigned long\<close>: integers below
  \<open>2\<^sup>3\<^sup>2\<close>. The two bounds are integers here, as in the settings of the component.
\<close>

definition finalDimensions ::
  "rounding \<Rightarrow> int \<Rightarrow> int \<Rightarrow> int \<Rightarrow> int \<Rightarrow> (int \<times> int) option" where
  "finalDimensions fl width height currentMaxWidth currentMaxHeight =
     do {
       aspectRatio \<leftarrow> js_div fl (of_int width) (of_int height);
       (targetWidth, targetHeight) \<leftarrow>
         (if (of_int width :: rat) > of_int currentMaxWidth
          then do {
            h \<leftarrow> js_div fl (of_int currentMaxWidth) aspectRatio;
            Some (of_int currentMaxWidth, h)
          }
          else Some (of_int width, of_int height));
       (targetWidth, targetHeight) \<leftarrow> Some
         (if targetHeight > of_int currentMaxHeight
          then (js_mul fl (of_int currentMaxHeight) aspectRatio, of_int currentMaxHeight)
          else (targetWidth, targetHeight));
       Some (max 1 (Math_round targetWidth), max 1 (Math_round targetHeight))
     }"

subsection \<open>The Dimension Calculator as the specification words it\<close>

text \<open>
  Section 4.1 of the specification: compute \<open>aspect = W/H\<close>; if \<open>W > maxW\<close>, set
  \<open>W = maxW\<close>, \<open>H = W/aspect\<close>; then, if \<open>H > maxH\<close>, set \<open>H = maxH\<close>, \<open>W = H*aspect\<close>;
  round to the nearest integer, with a minimum of one pixel, for both dimensions. The
  three steps are three functions on the pair (width, height), over the same arithmetic.
\<close>

definition spec_limit_width ::
  "rounding \<Rightarrow> rat \<Rightarrow> int \<Rightarrow> rat \<times> rat \<Rightarrow> (rat \<times> rat) option" where
  "spec_limit_width fl aspect maxWidth wh =
     (case wh of (w, h) \<Rightarrow>
        if w > of_int maxWidth
        then (case js_div fl (of_int maxWidth) aspect of
                None \<Rightarrow> None
              | Some h' \<Rightarrow> Some (of_int maxWidth, h'))
        else Some (w, h))"

definition spec_limit_height :: "rounding \<Rightarrow> rat \<Rightarrow> int \<Rightarrow> rat \<times> rat \<Rightarrow> rat \<times> rat" where
  "spec_limit_height fl aspect maxHeight wh =
     (case wh of (w, h) \<Rightarrow>
        if h > of_int maxHeight
        then (js_mul fl (of_int maxHeight) aspect, of_int maxHeight)
        else (w, h))"

definition spec_round_dimension :: "rat \<Rightarrow> int" where
  "spec_round_dimension x = max 1 (round x)"

definition spec_dimension_calculator ::
  "rounding \<Rightarrow> int \<Rightarrow> int \<Rightarrow> int \<Rightarrow> int \<Rightarrow> (int \<times> int) option" where
  "spec_dimension_calculator fl W H maxWidth maxHeight =
     (case js_div fl (of_int W) (of_int H) of
        None \<Rightarrow> None
      | Some aspect \<Rightarrow>
          (case spec_limit_width fl aspect maxWidth (of_int W, of_int H) of
             None \<Rightarrow> None
           | Some wh \<Rightarrow>
               (case spec_limit_height fl aspect maxHeight wh of
                  (w, h) \<Rightarrow> Some (spec_round_dimension w, spec_round_dimension h))))"

section \<open>The state of the component\<close>

text \<open>
  A number held in the state can be any JavaScript number: \<open>NaN\<close>, a finite double
  (\<open>-0\<close> taken as \<open>0\<close>) or an infinity.
\<close>

datatype jsnum = NaN | Num rat | PosInf | NegInf

text \<open>
  The settings are an object with the properties \<open>quality\<close>, \<open>maxWidth\<close> and
  \<open>maxHeight\<close>. An object is the list of its properties with their values, in the order
  of their creation; \<open>settings.maxWidth\<close> is \<open>map_of settings ''maxWidth''\<close>. A value
  stored by \<open>handleSettingChange\<close> is a string or a number.
\<close>

datatype jsval = Str string | Number jsnum

type_synonym settings = "(string \<times> jsval) list"

type_synonym ProcessedDimensions = "int \<times> int"

text \<open>
  The \<open>useState\<close> cells of \<open>ImageProcessor\<close> (lines 32 to 41), with their initial values,
  and the \<open>value\<close> of the file input that \<open>fileInputRef\<close> points to (\<open>None\<close> while the
  reference is not attached).
\<close>

record cstate =
  originalImageBase64 :: "string option"
  processedImageBase64 :: "string option"
  base64Length :: nat
  settings :: settings
  processedDimensions :: "ProcessedDimensions option"
  originalFileName :: string
  error :: "string option"
  processing :: bool
  isDraggingOver :: bool
  fileInputValue :: "string option"

definition initial_state :: cstate where
  "initial_state =
     \<lparr>originalImageBase64 = None, processedImageBase64 = None, base64Length = 0,
      settings = [(''quality'', Number (Num (8 / 10))), (''maxWidth'', Number (Num 800)),
                  (''maxHeight'', Number (Num 600))],
      processedDimensions = None, originalFileName = [], error = None,
      processing = False, isDraggingOver = False, fileInputValue = Some []\<rparr>"

text \<open>
  A state that holds a processed result: the one the component is in after
  \<open>photo.jpg\<close> was read and processed to 800 by 600 pixels.
\<close>

definition state_with_result :: cstate where
  "state_with_result = initial_state
     \<lparr>originalImageBase64 := Some ''data:image/jpeg;base64,AAAA'',
      processedImageBase64 := Some ''data:image/jpeg;base64,BBBB'',
      base64Length := 27, processedDimensions := Some (800, 600),
      originalFileName := ''photo.jpg''\<rparr>"

section \<open>File ingestion: \<open>handleFile\<close>\<close>

text \<open>
  A \<open>File\<close> has a MIME type and a name. The File API keeps the type in printable ASCII,
  so the 8-bit characters of \<open>string\<close> hold every type string.
\<close>

record File =
  file_type :: string
  file_name :: string

subsection \<open>The regular expression \<open>/^image\/jpe?g$/i\<close>\<close>

text \<open>
  The expression is a sequence of characters, one of them optional, anchored at both
  ends (\<open>$\<close> without the flag \<open>m\<close> matches at the end of the input only). Under the flag
  \<open>i\<close>, without the flag \<open>u\<close>, two characters match when their canonical forms are
  equal, and the canonical form of a character is its upper case.
\<close>

definition canonicalize :: "char \<Rightarrow> char" where
  "canonicalize ch =
     (let n = (of_char ch :: nat) in if 97 \<le> n \<and> n \<le> 122 then char_of (n - 32) else ch)"

datatype atom = Chr char | OptChr char

fun regex_test :: "atom list \<Rightarrow> string \<Rightarrow> bool" where
  "regex_test [] s = (s = [])"
| "regex_test (Chr c # r) [] = False"
| "regex_test (Chr c # r) (d # s) = (canonicalize d = canonicalize c \<and> regex_test r s)"
| "regex_test (OptChr c # r) [] = regex_test r []"
| "regex_test (OptChr c # r) (d # s) =
     ((canonicalize d = canonicalize c \<and> regex_test r s) \<or> regex_test r (d # s))"

definition jpeg_pattern :: "atom list" where
  "jpeg_pattern = map Chr ''image/jp'' @ [OptChr CHR ''e'', Chr CHR ''g'']"

text \<open>
  The words of the specification: the type is exactly \<open>image/jpeg\<close> or \<open>image/jpg\<close>,
  compared without regard to case.
\<close>

definition ascii_lower :: "char \<Rightarrow> char" where
  "ascii_lower ch =
     (let n = (of_char ch :: nat) in if 65 \<le> n \<and> n \<le> 90 then char_of (n + 32) else ch)"

definition spec_is_jpeg_type :: "string \<Rightarrow> bool" where
  "spec_is_jpeg_type t \<longleftrightarrow>
     map ascii_lower t = ''image/jpeg'' \<or> map ascii_lower t = ''image/jpg''"

subsection \<open>\<open>handleFile\<close> and the callbacks of its reader\<close>

text \<open>
  \<open>handleFile\<close> (lines 151 to 199) returns the new state and the file whose read as a
  data URL it started, if it started one. The read ends later with one of the two
  callbacks: \<open>reader.onload\<close>, whose result is a string or not, or \<open>reader.onerror\<close>.
\<close>

definition handleFile :: "File option \<Rightarrow> cstate \<Rightarrow> cstate \<times> File option" where
  "handleFile file s =
     (let s = s\<lparr>originalImageBase64 := None, processedImageBase64 := None,
                base64Length := 0, originalFileName := [], error := None,
                processedDimensions := None\<rparr>
      in case file of
           None \<Rightarrow> (s, None)
         | Some f \<Rightarrow>
             if \<not> regex_test jpeg_pattern (file_type f)
             then (s\<lparr>error := Some ''Please select or drop a JPG/JPEG image file.'',
                     fileInputValue := map_option (\<lambda>_. []) (fileInputValue s)\<rparr>, None)
             else (s\<lparr>originalFileName := file_name f, processing := True\<rparr>, Some f))"

definition reader_onload :: "string option \<Rightarrow> cstate \<Rightarrow> cstate" where
  "reader_onload result s =
     (case result of
        Some dataUrl \<Rightarrow> s\<lparr>originalImageBase64 := Some dataUrl\<rparr>
      | None \<Rightarrow> s\<lparr>error := Some ''Failed to read file content.'', processing := False\<rparr>)"

definition reader_onerror :: "cstate \<Rightarrow> cstate" where
  "reader_onerror s = s\<lparr>error := Some ''Failed to read the file.'', processing := False\<rparr>"

section \<open>The orchestrator: \<open>processImage\<close>\<close>

text \<open>
  \<open>processImage\<close> (lines 46 to 133) returns a promise, which is resolved, rejected with
  a message, or never settled. What the platform does during a run is an input of the
  model: the image fails to load (\<open>img.onerror\<close>), or it loads with a width and a height
  (\<open>img.onload\<close>) and \<open>getContext('2d')\<close> gives a context or \<open>null\<close>. With a context,
  the work on the canvas ends in one of three ways: \<open>ctx.drawImage\<close> (line 97) throws,
  \<open>toDataURL\<close> (line 101) returns a data URL, or \<open>toDataURL\<close> throws with a message.
\<close>

datatype settled = Resolved | Rejected string | Unsettled

datatype canvas_outcome = DrawImageThrows | DataURL string | Throws string

datatype image_event = Loaded int int bool canvas_outcome | LoadError

text \<open>Lines 49 to 51: the state changes made before the image is set to load.\<close>

definition processImage_enter :: "cstate \<Rightarrow> cstate" where
  "processImage_enter s = s\<lparr>processing := True, error := None, processedDimensions := None\<rparr>"

text \<open>
  Lines 56 to 117. The \<open>try\<close> block begins at line 100, after \<open>drawImage\<close>: an
  exception of \<open>drawImage\<close> leaves the handler at line 97, with the dimensions of line 93
  stored, and neither \<open>resolve\<close> nor \<open>reject\<close> is called. In the branch where
  \<open>toDataURL\<close> throws, \<open>reject\<close> comes before the \<open>resolve\<close> of the \<open>finally\<close> block, so
  the promise is rejected.
\<close>

definition img_onload ::
  "rounding \<Rightarrow> int \<Rightarrow> int \<Rightarrow> bool \<Rightarrow> canvas_outcome \<Rightarrow> int \<Rightarrow> int \<Rightarrow> cstate \<Rightarrow>
     (cstate \<times> settled) option" where
  "img_onload fl width height ctx canvas currentMaxWidth currentMaxHeight s =
     (if \<not> ctx
      then Some (s\<lparr>error := Some ''Could not get canvas context.'', processing := False\<rparr>,
                 Rejected ''Could not get canvas context.'')
      else do {
        (finalWidth, finalHeight) \<leftarrow>
          finalDimensions fl width height currentMaxWidth currentMaxHeight;
        let s = s\<lparr>processedDimensions := Some (finalWidth, finalHeight)\<rparr>;
        Some (case canvas of
                DrawImageThrows \<Rightarrow> (s, Unsettled)
              | DataURL processedBase64 \<Rightarrow>
                  (s\<lparr>processedImageBase64 := Some processedBase64,
                     base64Length := length processedBase64,
                     error := None, processing := False\<rparr>, Resolved)
              | Throws message \<Rightarrow>
                  (let errorMessage = ''Error processing image: '' @ message
                   in (s\<lparr>error := Some errorMessage, processedImageBase64 := None,
                         processedDimensions := None, base64Length := 0,
                         processing := False\<rparr>, Rejected errorMessage)))
      })"

text \<open>Lines 119 to 127.\<close>

definition img_onerror :: "cstate \<Rightarrow> cstate \<times> settled" where
  "img_onerror s =
     (let errorMessage = ''Failed to load the image data for processing.''
      in (s\<lparr>error := Some errorMessage, processedImageBase64 := None,
            processedDimensions := None, base64Length := 0, processing := False\<rparr>,
          Rejected errorMessage))"

text \<open>
  One run from the call to the end of the last handler. The quality is handed to
  \<open>toDataURL\<close> only. The result is \<open>None\<close> where the dimension computation leaves the rational model.
\<close>

definition processImage ::
  "rounding \<Rightarrow> image_event \<Rightarrow> string \<Rightarrow> jsnum \<Rightarrow> int \<Rightarrow> int \<Rightarrow> cstate \<Rightarrow>
     (cstate \<times> settled) option" where
  "processImage fl ev sourceBase64 currentQuality currentMaxWidth currentMaxHeight s =
     (if sourceBase64 = [] then Some (s, Resolved)
      else
        let s = processImage_enter s in
        case ev of
          Loaded width height ctx canvas \<Rightarrow>
            img_onload fl width height ctx canvas currentMaxWidth currentMaxHeight s
        | LoadError \<Rightarrow> Some (img_onerror s))"

section \<open>Settings input: \<open>handleSettingChange\<close>\<close>

text \<open>
  \<open>parseInt(value, 10)\<close> skips white space, reads a sign, takes the longest prefix of
  decimal digits and returns \<open>NaN\<close> when there is none, otherwise the signed integer
  as a number: an integer of magnitude \<open>2\<^sup>1\<^sup>0\<^sup>2\<^sup>4 - 2\<^sup>9\<^sup>7\<^sup>0\<close> or more becomes an infinity, any
  other is rounded to a double. Of the white space of ECMAScript, the characters below 256
  are TAB, LF, VT, FF, CR, SP and NBSP.
\<close>

definition is_white_space :: "char \<Rightarrow> bool" where
  "is_white_space ch \<longleftrightarrow> (of_char ch :: nat) \<in> {9, 10, 11, 12, 13, 32, 160}"

definition is_digit :: "char \<Rightarrow> bool" where
  "is_digit ch \<longleftrightarrow> 48 \<le> (of_char ch :: nat) \<and> (of_char ch :: nat) \<le> 57"

definition decimal_value :: "string \<Rightarrow> nat" where
  "decimal_value Z = foldl (\<lambda>n ch. 10 * n + (of_char ch - 48)) 0 Z"

definition to_number :: "rounding \<Rightarrow> int \<Rightarrow> jsnum" where
  "to_number fl n =
     (if 2 ^ 1024 - 2 ^ 970 \<le> \<bar>n\<bar> then (if n < 0 then NegInf else PosInf)
      else Num (fl (of_int n)))"

definition parseInt :: "rounding \<Rightarrow> string \<Rightarrow> jsnum" where
  "parseInt fl inputString =
     (let S = dropWhile is_white_space inputString;
          sign = (if S \<noteq> [] \<and> hd S = CHR ''-'' then - 1 else 1 :: int);
          S = (if S \<noteq> [] \<and> (hd S = CHR ''+'' \<or> hd S = CHR ''-'') then tl S else S);
          Z = takeWhile is_digit S
      in if Z = [] then NaN else to_number fl (sign * int (decimal_value Z)))"

text \<open>\<open>x || y\<close> on numbers: \<open>NaN\<close> and zero are falsy.\<close>

definition js_or :: "jsnum \<Rightarrow> jsnum \<Rightarrow> jsnum" where
  "js_or x y = (if x = NaN \<or> x = Num 0 then y else x)"

fun Math_max :: "jsnum \<Rightarrow> jsnum \<Rightarrow> jsnum" where
  "Math_max NaN y = NaN"
| "Math_max x NaN = NaN"
| "Math_max PosInf y = PosInf"
| "Math_max x PosInf = PosInf"
| "Math_max NegInf y = y"
| "Math_max x NegInf = x"
| "Math_max (Num a) (Num b) = Num (max a b)"

text \<open>
  The target of a change event has a name, a value and a type. \<open>handleSettingChange\<close>
  (lines 208 to 217) stores the processed value under the name of the target, in a copy of
  the settings object. \<open>parseFloat\<close>, which only the quality goes through, is a
  parameter.
\<close>

record change_event =
  target_name :: string
  target_value :: string
  target_type :: string

definition handleSettingChange ::
  "(string \<Rightarrow> jsnum) \<Rightarrow> rounding \<Rightarrow> change_event \<Rightarrow> cstate \<Rightarrow> cstate" where
  "handleSettingChange parseFloat fl e s =
     (let name = target_name e; value = target_value e; type = target_type e;
          processedValue =
            (if type = ''number'' \<or> name = ''quality'' \<or> name = ''maxWidth'' \<or>
                name = ''maxHeight''
             then Number (if name = ''quality'' then parseFloat value
                          else Math_max (Num 1) (js_or (parseInt fl value) (Num 1)))
             else Str value)
      in s\<lparr>settings := AList.update name processedValue (settings s)\<rparr>)"

text \<open>The settings satisfy the invariant when both bounds are integers of at least 1.\<close>

definition is_positive_integer :: "jsval option \<Rightarrow> bool" where
  "is_positive_integer v \<longleftrightarrow> (\<exists>n::int. 1 \<le> n \<and> v = Some (Number (Num (of_int n))))"

definition settings_invariant :: "settings \<Rightarrow> bool" where
  "settings_invariant st \<longleftrightarrow>
     is_positive_integer (map_of st ''maxWidth'') \<and>
     is_positive_integer (map_of st ''maxHeight'')"

section \<open>Debounced reprocessing\<close>

text \<open>
  React compares the dependencies of an effect with \<open>Object.is\<close>: two objects are the same
  when they are one object. Every \<open>setSettings\<close> of \<open>handleSettingChange\<close> stores a new
  object. A reference is therefore an address with the contents of the object, and every
  new object gets the next free address; objects are never modified, so that two
  references are equal exactly when their addresses are.
\<close>

type_synonym 'a ref = "nat \<times> 'a"

subsection \<open>The hook \<open>useDebounce\<close>\<close>

text \<open>
  Lines 6 to 22. The hook holds the state cell \<open>debouncedValue\<close>. Its effect depends on
  \<open>[value, delay]\<close>: when one of them differs from the last run of the effect, the cleanup
  of the last run clears its timeout, and the effect sets a timeout that stores the
  current value after the delay. \<open>handler\<close> is the pending timeout: the time it is due,
  in milliseconds, and the value it captured.
\<close>

record 'a debounce =
  debouncedValue :: 'a
  deps :: "'a \<times> nat"
  handler :: "(nat \<times> 'a) option"

definition useDebounce_mount :: "nat \<Rightarrow> 'a \<Rightarrow> nat \<Rightarrow> 'a debounce" where
  "useDebounce_mount now value delay =
     \<lparr>debouncedValue = value, deps = (value, delay), handler = Some (now + delay, value)\<rparr>"

definition useDebounce_effect :: "nat \<Rightarrow> 'a \<Rightarrow> nat \<Rightarrow> 'a debounce \<Rightarrow> 'a debounce" where
  "useDebounce_effect now value delay h =
     (if (value, delay) = deps h then h
      else h\<lparr>handler := Some (now + delay, value), deps := (value, delay)\<rparr>)"

definition handler_fires :: "'a debounce \<Rightarrow> 'a debounce" where
  "handler_fires h =
     (case handler h of
        None \<Rightarrow> h
      | Some (due, value) \<Rightarrow> h\<lparr>debouncedValue := value, handler := None\<rparr>)"

subsection \<open>The component with its effects\<close>

text \<open>
  The component is the state cells of \<open>ImageProcessor\<close>, the address of the object in
  \<open>settings\<close>, the next free address, the hook of line 136, the dependencies
  \<open>[originalImageBase64, debouncedSettings]\<close> of the last run of the reprocessing effect
  (lines 139 to 148; \<open>processImage\<close> is the same function at every render), the clock, and
  the calls of \<open>processImage\<close> made so far with their four arguments, the oldest first.
\<close>

record component =
  cells :: cstate
  settings_addr :: nat
  next_addr :: nat
  debouncedSettings :: "settings ref debounce"
  effect_deps :: "string option \<times> settings ref"
  now :: nat
  calls :: "(string \<times> jsval option \<times> jsval option \<times> jsval option) list"

definition reprocess_effect :: "component \<Rightarrow> component" where
  "reprocess_effect c =
     (let current = (originalImageBase64 (cells c), debouncedValue (debouncedSettings c))
      in if current = effect_deps c then c
         else
           let c = c\<lparr>effect_deps := current\<rparr>;
               st = snd (debouncedValue (debouncedSettings c))
           in case originalImageBase64 (cells c) of
                None \<Rightarrow> c
              | Some src \<Rightarrow>
                  if src = [] then c
                  else c\<lparr>calls := calls c @
                         [(src, map_of st ''quality'', map_of st ''maxWidth'',
                           map_of st ''maxHeight'')]\<rparr>)"

text \<open>After a render the effects run in the order of the source.\<close>

definition render :: "component \<Rightarrow> component" where
  "render c =
     reprocess_effect
       (c\<lparr>debouncedSettings :=
            useDebounce_effect (now c) (settings_addr c, settings (cells c)) 500
              (debouncedSettings c)\<rparr>)"

definition on_setting_change ::
  "(string \<Rightarrow> jsnum) \<Rightarrow> rounding \<Rightarrow> change_event \<Rightarrow> component \<Rightarrow> component" where
  "on_setting_change parseFloat fl e c =
     render (c\<lparr>cells := handleSettingChange parseFloat fl e (cells c),
               settings_addr := next_addr c, next_addr := Suc (next_addr c)\<rparr>)"

definition on_timeout :: "component \<Rightarrow> component" where
  "on_timeout c = render (c\<lparr>debouncedSettings := handler_fires (debouncedSettings c)\<rparr>)"

text \<open>
  Time passes until \<open>t\<close>: a timeout that is due by then runs at its time. A render that
  follows a timeout sets no new timeout, since the settings are the ones of the last run
  of the effect of the hook.
\<close>

definition advance :: "nat \<Rightarrow> component \<Rightarrow> component" where
  "advance t c =
     (case handler (debouncedSettings c) of
        None \<Rightarrow> c\<lparr>now := t\<rparr>
      | Some (due, value) \<Rightarrow>
          if due \<le> t then (on_timeout (c\<lparr>now := due\<rparr>))\<lparr>now := t\<rparr> else c\<lparr>now := t\<rparr>)"

datatype event = SettingChange nat change_event | TimePasses nat

fun step :: "(string \<Rightarrow> jsnum) \<Rightarrow> rounding \<Rightarrow> event \<Rightarrow> component \<Rightarrow> component" where
  "step parseFloat fl (SettingChange t e) c = on_setting_change parseFloat fl e (advance t c)"
| "step parseFloat fl (TimePasses t) c = advance t c"

fun edit_event :: "nat \<times> change_event \<Rightarrow> event" where
  "edit_event (t, e) = SettingChange t e"

fun run :: "(string \<Rightarrow> jsnum) \<Rightarrow> rounding \<Rightarrow> event list \<Rightarrow> component \<Rightarrow> component" where
  "run parseFloat fl [] c = c"
| "run parseFloat fl (ev # evs) c = run parseFloat fl evs (step parseFloat fl ev c)"

text \<open>
  The component is settled when no timeout is pending and both effects have run on the
  current values. \<open>settled_with_result\<close> is such a component, one second after
  \<open>photo.jpg\<close> was processed.
\<close>

definition settled :: "component \<Rightarrow> bool" where
  "settled c \<longleftrightarrow>
     handler (debouncedSettings c) = None \<and>
     deps (debouncedSettings c) = ((settings_addr c, settings (cells c)), 500) \<and>
     effect_deps c = (originalImageBase64 (cells c), debouncedValue (debouncedSettings c)) \<and>
     settings_addr c < next_addr c \<and>
     fst (debouncedValue (debouncedSettings c)) < next_addr c"

definition settled_with_result :: component where
  "settled_with_result =
     \<lparr>cells = state_with_result, settings_addr = 0, next_addr = 1,
      debouncedSettings =
        \<lparr>debouncedValue = (0, settings state_with_result),
         deps = ((0, settings state_with_result), 500), handler = None\<rparr>,
      effect_deps = (Some ''data:image/jpeg;base64,AAAA'', (0, settings state_with_result)),
      now = 1000,
      calls = [(''data:image/jpeg;base64,AAAA'', Some (Number (Num (8 / 10))),
                Some (Number (Num 800)), Some (Number (Num 600)))]\<rparr>"

text \<open>The settings after a sequence of timed edits.\<close>

definition settings_after ::
  "(string \<Rightarrow> jsnum) \<Rightarrow> rounding \<Rightarrow> (nat \<times> change_event) list \<Rightarrow> cstate \<Rightarrow> settings" where
  "settings_after parseFloat fl edits s =
     settings (foldl (\<lambda>s te. handleSettingChange parseFloat fl (snd te) s) s edits)"

text \<open>
  Two conditions used in the proofs: the effects have run on the current values, and no
  timeout is due up to a time \<open>T\<close>.
\<close>

definition synced :: "component \<Rightarrow> bool" where
  "synced c \<longleftrightarrow>
     deps (debouncedSettings c) = ((settings_addr c, settings (cells c)), 500) \<and>
     effect_deps c = (originalImageBase64 (cells c), debouncedValue (debouncedSettings c)) \<and>
     settings_addr c < next_addr c \<and>
     fst (debouncedValue (debouncedSettings c)) < next_addr c"

definition quiet_until :: "nat \<Rightarrow> component \<Rightarrow> bool" where
  "quiet_until T c \<longleftrightarrow>
     (case handler (debouncedSettings c) of None \<Rightarrow> True | Some (due, value) \<Rightarrow> T < due)"

text \<open>Three edits of the field \<open>maxWidth\<close>, 450 ms from the first to the last.\<close>

definition three_edits :: "(nat \<times> change_event) list" where
  "three_edits =
     [(1000, \<lparr>target_name = ''maxWidth'', target_value = ''4'', target_type = ''number''\<rparr>),
      (1200, \<lparr>target_name = ''maxWidth'', target_value = ''40'', target_type = ''number''\<rparr>),
      (1450, \<lparr>target_name = ''maxWidth'', target_value = ''400'', target_type = ''number''\<rparr>)]"

section \<open>Properties of the dimension computation\<close>

subsection \<open>Arithmetic lemmas\<close>

text \<open>Exact arithmetic is one instance of the rounding parameter.\<close>

lemma double_rounding_exact: "double_rounding (\<lambda>x. x)"
  by (simp add: double_rounding_def)

lemma quotient_in_range:
  fixes W H :: int
  assumes "0 < W" "W < 2 ^ 32" "0 < H" "H < 2 ^ 32"
  shows "1 / 2 ^ 1022 \<le> (of_int W / of_int H :: rat)"
    and "(of_int W / of_int H :: rat) \<le> 2 ^ 1023"
proof -
  have W1: "(1::rat) \<le> of_int W" and H1: "(1::rat) \<le> of_int H"
    using assms by simp_all
  have W2: "(of_int W :: rat) \<le> 2 ^ 32" and H2: "(of_int H :: rat) \<le> 2 ^ 32"
    using assms(2,4) by (metis less_imp_le of_int_le_iff of_int_numeral of_int_power)+
  have "(1::rat) / 2 ^ 1022 \<le> 1 / 2 ^ 32"
    by (intro divide_left_mono power_increasing) simp_all
  also have "\<dots> \<le> 1 / of_int H"
    using H1 H2 by (intro divide_left_mono) simp_all
  also have "\<dots> \<le> of_int W / of_int H"
    using W1 H1 by (intro divide_right_mono) simp_all
  finally show "1 / 2 ^ 1022 \<le> (of_int W / of_int H :: rat)" .
  have "(of_int W / of_int H :: rat) \<le> of_int W / 1"
    using W1 H1 by (intro divide_left_mono) simp_all
  also have "\<dots> \<le> 2 ^ 32" using W2 by simp
  also have "\<dots> \<le> (2::rat) ^ 1023"
    by (intro power_increasing) simp_all
  finally show "(of_int W / of_int H :: rat) \<le> 2 ^ 1023" .
qed

text \<open>The rounded aspect ratio is positive and at most \<open>1 + 2\<^sup>-\<^sup>5\<^sup>3\<close> times the exact one.\<close>

lemma aspect_bounds:
  fixes W H :: int
  assumes fl: "double_rounding fl" and "0 < W" "W < 2 ^ 32" "0 < H" "H < 2 ^ 32"
  shows "0 < fl (of_int W / of_int H)"
    and "fl (of_int W / of_int H) \<le> (of_int W / of_int H) * (1 + 1 / 2 ^ 53)"
proof -
  let ?q = "of_int W / of_int H :: rat"
  have q: "0 < ?q" using assms by simp
  have "\<bar>fl ?q - ?q\<bar> \<le> ?q / 2 ^ 53"
    using fl quotient_in_range[OF assms(2-5)] unfolding double_rounding_def by blast
  then have lo: "?q - ?q / 2 ^ 53 \<le> fl ?q" and hi: "fl ?q \<le> ?q + ?q / 2 ^ 53"
    by linarith+
  have "?q / 2 ^ 53 < ?q / 1"
    using q by (intro divide_strict_left_mono) simp_all
  then show "0 < fl ?q" using lo by simp
  show "fl ?q \<le> ?q * (1 + 1 / 2 ^ 53)" using hi by (simp add: algebra_simps)
qed

lemma Math_round_le: "x \<le> of_int n \<Longrightarrow> Math_round x \<le> n"
  unfolding Math_round_def by (simp add: floor_le_iff)

lemma Math_round_of_int: "Math_round (of_int n) = n"
  unfolding Math_round_def by (simp add: floor_unique)

text \<open>Where no division by zero occurs, the computation is the plain sequence of the source.\<close>

lemma finalDimensions_unfold:
  assumes "height \<noteq> 0" and "fl (of_int width / of_int height) \<noteq> 0"
  shows "finalDimensions fl width height currentMaxWidth currentMaxHeight =
    (let aspectRatio = fl (of_int width / of_int height);
         (targetWidth, targetHeight) =
           (if currentMaxWidth < width
            then (of_int currentMaxWidth, fl (of_int currentMaxWidth / aspectRatio))
            else (of_int width, of_int height));
         (targetWidth, targetHeight) =
           (if targetHeight > of_int currentMaxHeight
            then (fl (of_int currentMaxHeight * aspectRatio), of_int currentMaxHeight)
            else (targetWidth, targetHeight))
     in Some (max 1 (Math_round targetWidth), max 1 (Math_round targetHeight)))"
  using assms by (simp add: finalDimensions_def js_div_def js_mul_def Let_def)

lemma finalDimensions_defined:
  fixes W H :: int
  assumes fl: "double_rounding fl"
    and W: "0 < W" "W < 2 ^ 32" and H: "0 < H" "H < 2 ^ 32"
  shows "\<exists>finalWidth finalHeight.
           finalDimensions fl W H maxW maxH = Some (finalWidth, finalHeight) \<and>
           1 \<le> finalWidth \<and> 1 \<le> finalHeight"
proof -
  have "0 < fl (of_int W / of_int H)" by (rule aspect_bounds(1)[OF fl W H])
  then have a0: "fl (of_int W / of_int H) \<noteq> 0" by simp
  have H0: "H \<noteq> 0" using H by simp
  show ?thesis
    by (simp add: finalDimensions_unfold[where fl = fl and width = W and height = H, OF H0 a0]
        Let_def split: prod.splits)
qed

text \<open>
  Only the height bound was exceeded: the width becomes \<open>maxH * aspect\<close>, which stays
  below the source width because \<open>maxH \<le> H - 1\<close> outweighs the rounding of the ratio.
\<close>

lemma width_after_height_clamp:
  fixes W H maxW maxH :: int
  assumes fl: "double_rounding fl"
    and W: "0 < W" "W < 2 ^ 32" and H: "0 < H" "H < 2 ^ 32"
    and mH: "1 \<le> maxH" and fW: "fl (of_int maxW) = of_int maxW"
    and le: "W \<le> maxW" and gt: "maxH < H"
  shows "fl (of_int maxH * fl (of_int W / of_int H)) \<le> of_int maxW"
proof -
  let ?a = "fl (of_int W / of_int H)"
  have mono: "\<And>x y. x \<le> y \<Longrightarrow> fl x \<le> fl y"
    using fl unfolding double_rounding_def by blast
  have a: "?a \<le> (of_int W / of_int H) * (1 + 1 / 2 ^ 53)"
    by (rule aspect_bounds(2)[OF fl W H])
  have Hr: "(0::rat) < of_int H" using H by simp
  have "maxH \<le> H - 1" using gt by simp
  then have mH': "(of_int maxH :: rat) \<le> of_int H - 1"
    by (metis of_int_le_iff of_int_diff of_int_1)
  have "(of_int H :: rat) < 2 ^ 53"
  proof -
    have "(of_int H :: rat) < 2 ^ 32"
      using H(2) by (metis of_int_less_iff of_int_numeral of_int_power)
    also have "\<dots> \<le> (2::rat) ^ 53" by (intro power_increasing) simp_all
    finally show ?thesis .
  qed
  then have slack: "(of_int H - 1) * (1 + 1 / 2 ^ 53) \<le> (of_int H :: rat)"
    by (simp add: field_simps)
  have "of_int maxH * ?a \<le> of_int maxH * ((of_int W / of_int H) * (1 + 1 / 2 ^ 53))"
    using a mH by (intro mult_left_mono) simp_all
  also have "\<dots> \<le> (of_int H - 1) * ((of_int W / of_int H) * (1 + 1 / 2 ^ 53))"
    using mH' W Hr by (intro mult_right_mono) simp_all
  also have "\<dots> = (of_int W / of_int H) * ((of_int H - 1) * (1 + 1 / 2 ^ 53))"
    by (simp add: mult_ac)
  also have "\<dots> \<le> (of_int W / of_int H) * of_int H"
    using slack W Hr by (intro mult_left_mono) simp_all
  also have "\<dots> = of_int W" using Hr by simp
  also have "\<dots> \<le> of_int maxW" using le by simp
  finally have "of_int maxH * ?a \<le> of_int maxW" .
  then have "fl (of_int maxH * ?a) \<le> fl (of_int maxW)" by (rule mono)
  then show ?thesis using fW by simp
qed

text \<open>
  Both bounds were exceeded: the height \<open>maxW / aspect\<close> was above \<open>maxH\<close>, so the new
  width \<open>maxH * aspect\<close> is below \<open>maxW\<close>.
\<close>

lemma width_after_both_clamps:
  fixes maxW maxH :: int
  assumes fl: "double_rounding fl" and a: "0 < a"
    and fW: "fl (of_int maxW) = of_int maxW" and fH: "fl (of_int maxH) = of_int maxH"
    and gt: "of_int maxH < fl (of_int maxW / a)"
  shows "fl (of_int maxH * a) \<le> of_int maxW"
proof -
  have mono: "\<And>x y. x \<le> y \<Longrightarrow> fl x \<le> fl y"
    using fl unfolding double_rounding_def by blast
  have "of_int maxH < of_int maxW / a"
  proof (rule ccontr)
    assume "\<not> of_int maxH < of_int maxW / a"
    then have "of_int maxW / a \<le> of_int maxH" by simp
    then have "fl (of_int maxW / a) \<le> fl (of_int maxH)" by (rule mono)
    then show False using gt fH by simp
  qed
  then have "of_int maxH * a \<le> of_int maxW"
    using a by (simp add: pos_less_divide_eq)
  then have "fl (of_int maxH * a) \<le> fl (of_int maxW)" by (rule mono)
  then show ?thesis using fW by simp
qed

subsection \<open>The claims on the dimension computation\<close>

text \<open>
  Claim C1. For a source image of natural width \<open>W > 0\<close> and height \<open>H > 0\<close> and settings
  \<open>maxWidth, maxHeight \<ge> 1\<close>, the dimension computation of \<open>processImage\<close> is the algorithm
  of the specification: the aspect ratio \<open>W/H\<close>; the width limited to \<open>maxWidth\<close> with the
  height following; then the height, as it is after the first step, limited to \<open>maxHeight\<close>
  with the width following; then both rounded to the nearest integer and raised to at
  least one pixel. The computation also produces a result.
\<close>

theorem processing_follows_dimension_algorithm:
  fixes W H maxW maxH :: int
  assumes fl: "double_rounding fl"
    and W: "0 < W" "W < 2 ^ 32" and H: "0 < H" "H < 2 ^ 32"
    and mW: "1 \<le> maxW" and mH: "1 \<le> maxH"
  shows "finalDimensions fl W H maxW maxH =
           spec_dimension_calculator fl W H maxW maxH \<and>
         spec_dimension_calculator fl W H maxW maxH \<noteq> None"
proof -
  have eq: "finalDimensions fl W H maxW maxH =
      spec_dimension_calculator fl W H maxW maxH"
    by (simp add: finalDimensions_def spec_dimension_calculator_def spec_limit_width_def
        spec_limit_height_def spec_round_dimension_def Math_round_def round_def js_div_def
        split: option.splits prod.splits)
  moreover have "finalDimensions fl W H maxW maxH \<noteq> None"
    using finalDimensions_defined[OF fl W H, of maxW maxH] by auto
  ultimately show ?thesis by simp
qed

theorem processing_follows_dimension_algorithm_witness:
  "finalDimensions (\<lambda>x. x) 1000 300 800 200 = Some (667, 200) \<and>
   spec_dimension_calculator (\<lambda>x. x) 1000 300 800 200 = Some (667, 200)"
proof -
  have "finalDimensions (\<lambda>x. x) 1000 300 800 200 =
          spec_dimension_calculator (\<lambda>x. x) 1000 300 800 200 \<and>
        spec_dimension_calculator (\<lambda>x. x) 1000 300 800 200 \<noteq> None"
    by (rule processing_follows_dimension_algorithm[OF double_rounding_exact]) simp_all
  moreover have "finalDimensions (\<lambda>x. x) 1000 300 800 200 = Some (667, 200)"
    by code_simp
  ultimately show ?thesis by simp
qed

text \<open>
  Claim C2. For a natural width \<open>W > 0\<close>, height \<open>H > 0\<close> and integer bounds
  \<open>maxWidth \<ge> 1\<close>, \<open>maxHeight \<ge> 1\<close> (both doubles, so rounding leaves them as they are), the
  final dimensions satisfy \<open>finalWidth \<le> maxWidth\<close> and \<open>finalHeight \<le> maxHeight\<close>.
\<close>

theorem final_dimensions_within_bounds:
  fixes W H maxW maxH :: int
  assumes fl: "double_rounding fl"
    and W: "0 < W" "W < 2 ^ 32" and H: "0 < H" "H < 2 ^ 32"
    and mW: "1 \<le> maxW" and mH: "1 \<le> maxH"
    and fW: "fl (of_int maxW) = of_int maxW"
    and fH: "fl (of_int maxH) = of_int maxH"
  shows "\<exists>finalWidth finalHeight.
           finalDimensions fl W H maxW maxH = Some (finalWidth, finalHeight) \<and>
           finalWidth \<le> maxW \<and> finalHeight \<le> maxH"
proof -
  let ?a = "fl (of_int W / of_int H)"
  have a: "0 < ?a" by (rule aspect_bounds(1)[OF fl W H])
  have H0: "H \<noteq> 0" using H by simp
  have a0: "?a \<noteq> 0" using a by simp
  note unf = finalDimensions_unfold[where fl = fl and width = W and height = H
      and currentMaxWidth = maxW and currentMaxHeight = maxH, OF H0 a0]
  show ?thesis
  proof (cases "maxW < W")
    case wide: True
    show ?thesis
    proof (cases "of_int maxH < fl (of_int maxW / ?a)")
      case True
      have "fl (of_int maxH * ?a) \<le> of_int maxW"
        by (rule width_after_both_clamps[OF fl a fW fH True])
      then have "Math_round (fl (of_int maxH * ?a)) \<le> maxW"
        by (rule Math_round_le)
      then show ?thesis
        using wide True mW mH by (simp add: unf Math_round_of_int)
    next
      case False
      then have "Math_round (fl (of_int maxW / ?a)) \<le> maxH"
        by (intro Math_round_le) simp
      then show ?thesis
        using wide False mW mH by (simp add: unf Math_round_of_int)
    qed
  next
    case narrow: False
    show ?thesis
    proof (cases "maxH < H")
      case True
      have "fl (of_int maxH * ?a) \<le> of_int maxW"
        using narrow by (intro width_after_height_clamp[OF fl W H mH fW _ True]) simp
      then have "Math_round (fl (of_int maxH * ?a)) \<le> maxW"
        by (rule Math_round_le)
      then show ?thesis
        using narrow True mW mH by (simp add: unf Math_round_of_int)
    next
      case False
      then show ?thesis
        using narrow mW mH by (simp add: unf Math_round_of_int)
    qed
  qed
qed

theorem final_dimensions_within_bounds_witness:
  "finalDimensions (\<lambda>x. x) 1000 500 800 100 = Some (200, 100) \<and>
   (\<exists>finalWidth finalHeight.
      finalDimensions (\<lambda>x. x) 1000 500 800 100 = Some (finalWidth, finalHeight) \<and>
      finalWidth \<le> 800 \<and> finalHeight \<le> 100)"
proof -
  have "\<exists>finalWidth finalHeight.
      finalDimensions (\<lambda>x. x) 1000 500 800 100 = Some (finalWidth, finalHeight) \<and>
      finalWidth \<le> 800 \<and> finalHeight \<le> 100"
    by (rule final_dimensions_within_bounds[OF double_rounding_exact]) simp_all
  moreover have "finalDimensions (\<lambda>x. x) 1000 500 800 100 = Some (200, 100)"
    by code_simp
  ultimately show ?thesis by simp
qed

text \<open>
  Claim C6. For all \<open>W, H > 0\<close> and \<open>maxWidth, maxHeight \<ge> 1\<close> the dimension computation
  returns a pair \<open>(w', h')\<close> of integers with \<open>w' \<ge> 1\<close> and \<open>h' \<ge> 1\<close>, without an error
  case; and if \<open>W \<le> maxWidth\<close> and \<open>H \<le> maxHeight\<close> then \<open>(w', h') = (W, H)\<close>.
\<close>

theorem dimensions_positive_and_unchanged_when_fitting:
  fixes W H maxW maxH :: int
  assumes fl: "double_rounding fl"
    and W: "0 < W" "W < 2 ^ 32" and H: "0 < H" "H < 2 ^ 32"
    and mW: "1 \<le> maxW" and mH: "1 \<le> maxH"
  shows "\<exists>w' h'. finalDimensions fl W H maxW maxH = Some (w', h') \<and>
           1 \<le> w' \<and> 1 \<le> h' \<and>
           (W \<le> maxW \<and> H \<le> maxH \<longrightarrow> (w', h') = (W, H))"
proof -
  have "0 < fl (of_int W / of_int H)" by (rule aspect_bounds(1)[OF fl W H])
  then have a0: "fl (of_int W / of_int H) \<noteq> 0" by simp
  have H0: "H \<noteq> 0" using H by simp
  note unf = finalDimensions_unfold[where fl = fl and width = W and height = H
      and currentMaxWidth = maxW and currentMaxHeight = maxH, OF H0 a0]
  obtain w' h' where some: "finalDimensions fl W H maxW maxH = Some (w', h')"
    and pos: "1 \<le> w'" "1 \<le> h'"
    using finalDimensions_defined[OF fl W H, of maxW maxH] by blast
  have "(w', h') = (W, H)" if "W \<le> maxW" "H \<le> maxH"
    using that some W H by (simp add: unf Math_round_of_int)
  then show ?thesis using some pos by blast
qed

theorem dimensions_positive_and_unchanged_when_fitting_witness:
  "finalDimensions (\<lambda>x. x) 640 480 800 600 = Some (640, 480) \<and>
   finalDimensions (\<lambda>x. x) 1 1000 800 3 = Some (1, 3)"
proof -
  have "\<exists>w' h'. finalDimensions (\<lambda>x. x) 640 480 800 600 = Some (w', h') \<and>
           1 \<le> w' \<and> 1 \<le> h' \<and>
           (640 \<le> (800::int) \<and> 480 \<le> (600::int) \<longrightarrow> (w', h') = (640, 480))"
    by (rule dimensions_positive_and_unchanged_when_fitting[OF double_rounding_exact]) simp_all
  then have "finalDimensions (\<lambda>x. x) 640 480 800 600 = Some (640, 480)" by auto
  moreover have "finalDimensions (\<lambda>x. x) 1 1000 800 3 = Some (1, 3)" by code_simp
  ultimately show ?thesis by simp
qed

section \<open>Properties of file ingestion\<close>

subsection \<open>The regular expression accepts the two JPEG types in any case\<close>

lemma of_char_lt: "(of_char c :: nat) < 256"
  by (metis of_char_mod_256 mod_less_divisor zero_less_numeral)

lemma canonicalize_iff_lower:
  assumes "ascii_lower c = c"
  shows "canonicalize d = canonicalize c \<longleftrightarrow> ascii_lower d = c"
proof -
  define m n where "m = (of_char c :: nat)" and "n = (of_char d :: nat)"
  have c: "c = char_of m" and d: "d = char_of n"
    by (simp_all add: m_def n_def)
  have lt: "m < 256" "n < 256"
    by (simp_all add: m_def n_def of_char_lt)
  have m: "\<not> (65 \<le> m \<and> m \<le> 90)"
  proof
    assume up: "65 \<le> m \<and> m \<le> 90"
    then have "ascii_lower c = char_of (m + 32)"
      by (simp add: ascii_lower_def m_def)
    with assms have "char_of (m + 32) = (char_of m :: char)" by (simp add: c)
    then have "(m + 32) mod 256 = m mod 256" by (simp add: char_of_eq_iff take_bit_eq_mod)
    with up lt show False by simp
  qed
  show ?thesis
    using m lt unfolding c d canonicalize_def ascii_lower_def Let_def
    by (auto simp: char_of_eq_iff of_char_of take_bit_eq_mod mod_if)
qed

lemma regex_test_literals:
  assumes "\<forall>c \<in> set p. ascii_lower c = c"
  shows "regex_test (map Chr p @ r) t \<longleftrightarrow>
         (\<exists>u v. t = u @ v \<and> map ascii_lower u = p \<and> regex_test r v)"
  using assms
proof (induction p arbitrary: t)
  case Nil
  then show ?case by simp
next
  case (Cons c p)
  show ?case
  proof (cases t)
    case Nil
    then show ?thesis by simp
  next
    case (Cons d t')
    have "regex_test (map Chr (c # p) @ r) t \<longleftrightarrow>
          ascii_lower d = c \<and> (\<exists>u v. t' = u @ v \<and> map ascii_lower u = p \<and> regex_test r v)"
      using Cons.prems Cons.IH[of t'] by (simp add: Cons canonicalize_iff_lower)
    also have "\<dots> \<longleftrightarrow> (\<exists>u v. t = u @ v \<and> map ascii_lower u = c # p \<and> regex_test r v)"
    proof
      assume "ascii_lower d = c \<and>
        (\<exists>u v. t' = u @ v \<and> map ascii_lower u = p \<and> regex_test r v)"
      then obtain u v where dc: "ascii_lower d = c" and uv: "t' = u @ v"
        "map ascii_lower u = p" "regex_test r v" by blast
      have "t = (d # u) @ v \<and> map ascii_lower (d # u) = c # p \<and> regex_test r v"
        using dc uv by (simp add: Cons)
      then show "\<exists>u v. t = u @ v \<and> map ascii_lower u = c # p \<and> regex_test r v"
        by (intro exI[of _ "d # u"] exI[of _ v])
    next
      assume "\<exists>u v. t = u @ v \<and> map ascii_lower u = c # p \<and> regex_test r v"
      then obtain u where "\<exists>v. t = u @ v \<and> map ascii_lower u = c # p \<and> regex_test r v" ..
      then obtain v where "t = u @ v \<and> map ascii_lower u = c # p \<and> regex_test r v" ..
      then have uv: "t = u @ v" "map ascii_lower u = c # p" "regex_test r v"
        by simp_all
      from uv(2) obtain a u' where u: "u = a # u'" by (cases u) simp_all
      have "a = d" and t': "t' = u' @ v" using uv(1) by (simp_all add: u Cons)
      moreover have "ascii_lower a = c" and "map ascii_lower u' = p"
        using uv(2) by (simp_all add: u)
      ultimately have dc: "ascii_lower d = c" and
        "t' = u' @ v \<and> map ascii_lower u' = p \<and> regex_test r v"
        using uv(3) by simp_all
      then have "\<exists>v. t' = u' @ v \<and> map ascii_lower u' = p \<and> regex_test r v"
        by (intro exI[of _ v])
      then have "\<exists>u v. t' = u @ v \<and> map ascii_lower u = p \<and> regex_test r v"
        by (rule exI[of _ u'])
      with dc show "ascii_lower d = c \<and>
        (\<exists>u v. t' = u @ v \<and> map ascii_lower u = p \<and> regex_test r v)" by (rule conjI)
    qed
    finally show ?thesis .
  qed
qed

lemma regex_test_optional:
  "regex_test (OptChr c # r) v \<longleftrightarrow> regex_test (Chr c # r) v \<or> regex_test r v"
  by (cases v) simp_all

lemma regex_test_all_literals:
  assumes "\<forall>c \<in> set p. ascii_lower c = c"
  shows "regex_test (map Chr p) t \<longleftrightarrow> map ascii_lower t = p"
  using regex_test_literals[OF assms, of "[]" t] by simp

lemma regex_test_tail:
  "regex_test [OptChr CHR ''e'', Chr CHR ''g''] v \<longleftrightarrow>
     map ascii_lower v = ''eg'' \<or> map ascii_lower v = ''g''"
proof -
  have eg: "\<forall>c \<in> set ''eg''. ascii_lower c = c" and g: "\<forall>c \<in> set ''g''. ascii_lower c = c"
    by (simp_all add: ascii_lower_def)
  have "regex_test [OptChr CHR ''e'', Chr CHR ''g''] v \<longleftrightarrow>
        regex_test (map Chr ''eg'') v \<or> regex_test (map Chr ''g'') v"
    by (simp only: regex_test_optional list.map)
  then show ?thesis
    by (simp only: regex_test_all_literals[OF eg] regex_test_all_literals[OF g])
qed

lemma jpeg_pattern_iff: "regex_test jpeg_pattern t \<longleftrightarrow> spec_is_jpeg_type t"
proof -
  have lits: "\<forall>c \<in> set ''image/jp''. ascii_lower c = c"
    by (simp add: ascii_lower_def)
  have "regex_test jpeg_pattern t \<longleftrightarrow>
        (\<exists>u v. t = u @ v \<and> map ascii_lower u = ''image/jp'' \<and>
           (map ascii_lower v = ''eg'' \<or> map ascii_lower v = ''g''))"
    unfolding jpeg_pattern_def regex_test_literals[OF lits] regex_test_tail ..
  also have "\<dots> \<longleftrightarrow> map ascii_lower t = ''image/jp'' @ ''eg'' \<or>
                     map ascii_lower t = ''image/jp'' @ ''g''"
    unfolding map_eq_append_conv by metis
  finally show ?thesis by (simp add: spec_is_jpeg_type_def)
qed


subsection \<open>The claims on file ingestion\<close>

text \<open>
  Claim C7. File ingestion accepts a file if and only if its MIME type is exactly
  \<open>image/jpeg\<close> or \<open>image/jpg\<close>, compared without regard to case. A file of any other
  type is rejected with the unsupported-type error, and the read into a data URL is started
  only for an accepted file.
\<close>

theorem file_accepted_iff_jpeg_type:
  "(snd (handleFile (Some f) s) = Some f \<longleftrightarrow> spec_is_jpeg_type (file_type f)) \<and>
   (\<not> spec_is_jpeg_type (file_type f) \<longrightarrow>
      snd (handleFile (Some f) s) = None \<and>
      error (fst (handleFile (Some f) s)) =
        Some ''Please select or drop a JPG/JPEG image file.'') \<and>
   (spec_is_jpeg_type (file_type f) \<longrightarrow> error (fst (handleFile (Some f) s)) = None)"
  by (simp add: handleFile_def jpeg_pattern_iff Let_def)

theorem file_accepted_iff_jpeg_type_witness:
  "snd (handleFile (Some \<lparr>file_type = ''Image/JPG'', file_name = ''a.jpg''\<rparr>) initial_state) =
     Some \<lparr>file_type = ''Image/JPG'', file_name = ''a.jpg''\<rparr> \<and>
   snd (handleFile (Some \<lparr>file_type = ''image/jpeg2000'', file_name = ''b.jp2''\<rparr>) initial_state) =
     None \<and>
   error (fst (handleFile (Some \<lparr>file_type = ''image/jpeg2000'', file_name = ''b.jp2''\<rparr>)
     initial_state)) = Some ''Please select or drop a JPG/JPEG image file.''"
proof -
  have jpg: "spec_is_jpeg_type (file_type \<lparr>file_type = ''Image/JPG'', file_name = ''a.jpg''\<rparr>)"
    by code_simp
  have jp2: "\<not> spec_is_jpeg_type
      (file_type \<lparr>file_type = ''image/jpeg2000'', file_name = ''b.jp2''\<rparr>)"
    by code_simp
  show ?thesis
    using jpg jp2
      file_accepted_iff_jpeg_type
        [of "\<lparr>file_type = ''Image/JPG'', file_name = ''a.jpg''\<rparr>" initial_state]
      file_accepted_iff_jpeg_type
        [of "\<lparr>file_type = ''image/jpeg2000'', file_name = ''b.jp2''\<rparr>" initial_state]
    by blast
qed

text \<open>
  Claim C3, as amended. When a file whose MIME type is \<open>image/png\<close>, or any type that is
  not a JPEG type, is submitted to \<open>handleFile\<close>, the ingestion reports the
  unsupported-type error, starts no read, and clears every field of a previously computed
  result: the processed Base64 string, the processed dimensions, the Base64 length and the
  original file name, and the stored source image with them.
\<close>

theorem rejected_file_clears_previous_result:
  assumes "\<not> spec_is_jpeg_type (file_type f)"
  shows "error (fst (handleFile (Some f) s)) =
           Some ''Please select or drop a JPG/JPEG image file.'' \<and>
         snd (handleFile (Some f) s) = None \<and>
         processedImageBase64 (fst (handleFile (Some f) s)) = None \<and>
         processedDimensions (fst (handleFile (Some f) s)) = None \<and>
         base64Length (fst (handleFile (Some f) s)) = 0 \<and>
         originalFileName (fst (handleFile (Some f) s)) = [] \<and>
         originalImageBase64 (fst (handleFile (Some f) s)) = None"
  using assms by (simp add: handleFile_def jpeg_pattern_iff Let_def)

theorem rejected_file_clears_previous_result_witness:
  "processedImageBase64 (fst (handleFile
      (Some \<lparr>file_type = ''image/png'', file_name = ''a.png''\<rparr>) state_with_result)) = None \<and>
   base64Length (fst (handleFile
      (Some \<lparr>file_type = ''image/png'', file_name = ''a.png''\<rparr>) state_with_result)) = 0"
proof -
  have "\<not> spec_is_jpeg_type (file_type \<lparr>file_type = ''image/png'', file_name = ''a.png''\<rparr>)"
    by (simp add: spec_is_jpeg_type_def ascii_lower_def)
  from rejected_file_clears_previous_result[OF this, of state_with_result]
  show ?thesis by simp
qed

text \<open>
  Claim C3 as stated says that the rejection leaves every field of the previous result
  unchanged. In the state that holds the result of \<open>photo.jpg\<close>, submitting a PNG file
  reports the error and resets all four fields.
\<close>

theorem png_rejection_changes_previous_result:
  "error (fst (handleFile (Some \<lparr>file_type = ''image/png'', file_name = ''a.png''\<rparr>)
      state_with_result)) = Some ''Please select or drop a JPG/JPEG image file.'' \<and>
   processedImageBase64 state_with_result = Some ''data:image/jpeg;base64,BBBB'' \<and>
   processedImageBase64 (fst (handleFile
      (Some \<lparr>file_type = ''image/png'', file_name = ''a.png''\<rparr>) state_with_result)) = None \<and>
   processedDimensions state_with_result = Some (800, 600) \<and>
   processedDimensions (fst (handleFile
      (Some \<lparr>file_type = ''image/png'', file_name = ''a.png''\<rparr>) state_with_result)) = None \<and>
   base64Length state_with_result = 27 \<and>
   base64Length (fst (handleFile
      (Some \<lparr>file_type = ''image/png'', file_name = ''a.png''\<rparr>) state_with_result)) = 0 \<and>
   originalFileName state_with_result = ''photo.jpg'' \<and>
   originalFileName (fst (handleFile
      (Some \<lparr>file_type = ''image/png'', file_name = ''a.png''\<rparr>) state_with_result)) = []"
  by (simp add: handleFile_def state_with_result_def initial_state_def jpeg_pattern_def
      canonicalize_def)

section \<open>Properties of the orchestrator\<close>

text \<open>
  Claim C4, as amended. On entry to every reprocessing run the busy flag is set and the
  final dimensions of the previous result are cleared; the encoded Base64 data and the
  encoded length stay as they were at entry.
\<close>

theorem reprocessing_entry_clears_dimensions_only:
  "processing (processImage_enter s) \<and>
   processedDimensions (processImage_enter s) = None \<and>
   processedImageBase64 (processImage_enter s) = processedImageBase64 s \<and>
   base64Length (processImage_enter s) = base64Length s"
  by (simp add: processImage_enter_def)

text \<open>
  Claim C4 as stated says that all fields of the previous result are cleared on entry. In
  the state that holds the result of \<open>photo.jpg\<close>, the encoded data and its length are
  still stored after the entry of a new run.
\<close>

theorem reprocessing_entry_keeps_encoded_result:
  "processedImageBase64 (processImage_enter state_with_result) =
     Some ''data:image/jpeg;base64,BBBB'' \<and>
   base64Length (processImage_enter state_with_result) = 27"
  by (simp add: processImage_enter_def state_with_result_def initial_state_def)

text \<open>
  Where no step outside the \<open>try\<close> block throws, a run on a source ends with the busy
  flag cleared: on a decode failure, without a canvas context, when \<open>toDataURL\<close> throws,
  and on success. An image that has loaded has a width and a height between 1 and
  \<open>2\<^sup>3\<^sup>2 - 1\<close>.
\<close>

lemma busy_flag_released_on_guarded_exits:
  assumes src: "sourceBase64 \<noteq> []" and fl: "double_rounding fl"
    and img: "case ev of
                Loaded w h ctx canvas \<Rightarrow>
                  0 < w \<and> w < 2 ^ 32 \<and> 0 < h \<and> h < 2 ^ 32 \<and>
                  (ctx \<longrightarrow> canvas \<noteq> DrawImageThrows)
              | LoadError \<Rightarrow> True"
  shows "\<exists>s' r. processImage fl ev sourceBase64 currentQuality currentMaxWidth
                    currentMaxHeight s = Some (s', r) \<and> r \<noteq> Unsettled \<and> \<not> processing s'"
proof (cases ev)
  case (Loaded w h ctx canvas)
  with img have "0 < w" "w < 2 ^ 32" "0 < h" "h < 2 ^ 32" by simp_all
  from finalDimensions_defined[OF fl this, of currentMaxWidth currentMaxHeight]
  obtain fw fh where "finalDimensions fl w h currentMaxWidth currentMaxHeight = Some (fw, fh)"
    by blast
  then show ?thesis
    using src img
    by (cases canvas)
      (simp_all add: Loaded processImage_def processImage_enter_def img_onload_def Let_def)
next
  case LoadError
  then show ?thesis
    using src by (simp add: processImage_def processImage_enter_def img_onerror_def Let_def)
qed

text \<open>
  When \<open>drawImage\<close> throws, the run ends with the busy flag set, whatever it was before,
  and with the promise unsettled.
\<close>

lemma busy_flag_stays_set_when_drawImage_throws:
  assumes src: "sourceBase64 \<noteq> []" and fl: "double_rounding fl"
    and w: "0 < w" "w < 2 ^ 32" and h: "0 < h" "h < 2 ^ 32"
  shows "\<exists>s'. processImage fl (Loaded w h True DrawImageThrows) sourceBase64 currentQuality
                 currentMaxWidth currentMaxHeight s = Some (s', Unsettled) \<and> processing s'"
proof -
  from finalDimensions_defined[OF fl w h, of currentMaxWidth currentMaxHeight]
  obtain fw fh where "finalDimensions fl w h currentMaxWidth currentMaxHeight = Some (fw, fh)"
    by blast
  then show ?thesis
    using src by (simp add: processImage_def processImage_enter_def img_onload_def Let_def)
qed

text \<open>
  Claim C5 says that \<open>processImage\<close> sets the busy flag on entry and that on every way the
  run can end, a later processing step that throws included, the flag is set back to
  false. In the state that holds the result of \<open>photo.jpg\<close> the flag is off. A run on that
  state in which the image loads with 1600 by 1200 pixels, the canvas context is there and
  \<open>drawImage\<close> throws ends with the flag on, the error cleared, the dimensions 800 by
  600 stored and the promise unsettled: the entry has set the flag, and
  \<open>setProcessing(false)\<close>, which stands only in the branch without a context, in the
  \<open>finally\<close> block and in \<open>img.onerror\<close>, is not reached.
\<close>

theorem drawImage_throw_leaves_busy_flag_set:
  "\<not> processing state_with_result \<and>
   processImage (\<lambda>x. x) (Loaded 1600 1200 True DrawImageThrows) ''data:image/jpeg;base64,AAAA''
     (Num (4 / 5)) 800 600 state_with_result =
     Some (state_with_result
             \<lparr>processing := True, error := None, processedDimensions := Some (800, 600)\<rparr>,
           Unsettled)"
proof -
  have "finalDimensions (\<lambda>x. x) 1600 1200 800 600 = Some (800, 600)"
    by code_simp
  then show ?thesis
    by (simp add: processImage_def processImage_enter_def img_onload_def Let_def
        state_with_result_def initial_state_def)
qed

text \<open>
  Claim C8. When the image fails to decode, the run ends rejected with the message that the
  image data failed to load, the same message is stored as the error, the encoded Base64
  string, the dimensions and the encoded length are cleared, and the busy flag is off. The
  source image and the settings, on which the reprocessing effect depends, are as before,
  so that no new run follows from the failure.
\<close>

theorem decode_failure_clears_result:
  assumes "sourceBase64 \<noteq> []"
  shows "\<exists>s'. processImage fl LoadError sourceBase64 currentQuality currentMaxWidth
                 currentMaxHeight s =
               Some (s', Rejected ''Failed to load the image data for processing.'') \<and>
           error s' = Some ''Failed to load the image data for processing.'' \<and>
           processedImageBase64 s' = None \<and> processedDimensions s' = None \<and>
           base64Length s' = 0 \<and> \<not> processing s' \<and>
           originalImageBase64 s' = originalImageBase64 s \<and> settings s' = settings s"
  using assms by (simp add: processImage_def processImage_enter_def img_onerror_def Let_def)

theorem decode_failure_clears_result_witness:
  "\<exists>s'. processImage (\<lambda>x. x) LoadError ''data:image/jpeg;base64,AAAA'' (Num (4 / 5)) 800 600
           state_with_result =
         Some (s', Rejected ''Failed to load the image data for processing.'') \<and>
         processedImageBase64 s' = None \<and> \<not> processing s'"
proof -
  have "''data:image/jpeg;base64,AAAA'' \<noteq> []" by simp
  from decode_failure_clears_result[OF this, of "\<lambda>x. x" "Num (4 / 5)" 800 600 state_with_result]
  show ?thesis by blast
qed

section \<open>Properties of the settings input\<close>

text \<open>The digit 1 followed by 400 zeros denotes a number beyond the range of doubles.\<close>

lemma decimal_zeros:
  "foldl (\<lambda>n ch. 10 * n + (of_char ch - 48)) (a::nat) (replicate k CHR ''0'') = a * 10 ^ k"
  by (induction k arbitrary: a) simp_all

lemma decimal_value_one_zeros: "decimal_value (CHR ''1'' # replicate k CHR ''0'') = 10 ^ k"
  by (simp add: decimal_value_def decimal_zeros)

lemma beyond_double_range: "(2::int) ^ 1024 - 2 ^ 970 \<le> 10 ^ 400"
proof -
  have "(2::int) ^ 1024 \<le> 2 ^ 1300" by (intro power_increasing) simp_all
  also have "\<dots> = (2 ^ 13) ^ 100" by (simp add: power_mult [symmetric])
  also have "\<dots> \<le> (10 ^ 4) ^ 100" by (intro power_mono) simp_all
  also have "\<dots> = 10 ^ 400" by (simp add: power_mult [symmetric])
  finally have "(2::int) ^ 1024 \<le> 10 ^ 400" .
  moreover have "(0::int) \<le> 2 ^ 970" by simp
  ultimately show ?thesis by linarith
qed

lemma parseInt_overflow: "parseInt fl (CHR ''1'' # replicate 400 CHR ''0'') = PosInf"
proof -
  define S where "S = CHR ''1'' # replicate 400 CHR ''0''"
  have ws: "dropWhile is_white_space S = S"
    unfolding S_def by (simp add: is_white_space_def)
  have minus: "(hd S = CHR ''-'') = False" and plus: "(hd S = CHR ''+'') = False"
    unfolding S_def by simp_all
  have dg: "takeWhile is_digit S = S"
    unfolding S_def by (simp add: is_digit_def)
  have ne: "(S = []) = False"
    unfolding S_def by simp
  have dv: "decimal_value S = 10 ^ 400"
    unfolding S_def by (rule decimal_value_one_zeros)
  have n: "1 * int (10 ^ 400) = 10 ^ 400"
    by (simp only: mult_1 of_nat_power of_nat_numeral)
  have nn: "(0::int) \<le> 10 ^ 400"
    by (rule zero_le_power) simp
  have big: "(2 ^ 1024 - 2 ^ 970 \<le> \<bar>(10::int) ^ 400\<bar>) = True"
    using beyond_double_range by (simp only: abs_of_nonneg[OF nn])
  have pos: "((10::int) ^ 400 < 0) = False"
    using nn by (simp only: not_less[symmetric])
  have "parseInt fl S = PosInf"
    unfolding parseInt_def Let_def
    by (simp only: ws minus plus dg ne dv n to_number_def big pos simp_thms if_True if_False)
  then show ?thesis unfolding S_def .
qed

text \<open>
  What \<open>Math.max(1, parseInt(value, 10) || 1)\<close> stores, by the result of \<open>parseInt\<close>.
\<close>

lemma clamped_bound_cases:
  "Math_max (Num 1) (js_or x (Num 1)) =
     (case x of NaN \<Rightarrow> Num 1 | Num q \<Rightarrow> Num (max 1 q) | PosInf \<Rightarrow> PosInf | NegInf \<Rightarrow> Num 1)"
  by (cases x) (simp_all add: js_or_def)

lemma to_number_cases:
  "to_number fl n = PosInf \<or> to_number fl n = NegInf \<or> to_number fl n = Num (fl (of_int n))"
  unfolding to_number_def by (simp only: split: if_split) blast

lemma parseInt_cases:
  "parseInt fl v = NaN \<or> parseInt fl v = PosInf \<or> parseInt fl v = NegInf \<or>
   (\<exists>n::int. parseInt fl v = Num (fl (of_int n)))"
proof -
  have "parseInt fl v = NaN \<or> (\<exists>n. parseInt fl v = to_number fl n)"
    unfolding parseInt_def Let_def by (simp only: split: if_split) blast
  then show ?thesis using to_number_cases[of fl] by metis
qed

lemma clamped_bound_integer:
  assumes int: "\<forall>n::int. \<exists>m::int. fl (of_int n) = of_int m"
    and fin: "parseInt fl v \<noteq> PosInf"
  shows "is_positive_integer (Some (Number (Math_max (Num 1) (js_or (parseInt fl v) (Num 1)))))"
proof -
  have one: "is_positive_integer (Some (Number (Num 1)))"
    unfolding is_positive_integer_def by (intro exI[of _ 1]) simp
  consider "parseInt fl v = NaN" | "parseInt fl v = NegInf"
    | n where "parseInt fl v = Num (fl (of_int n))"
    using parseInt_cases[of fl v] fin by blast
  then show ?thesis
  proof cases
    case 1
    then show ?thesis using one by (simp add: clamped_bound_cases)
  next
    case 2
    then show ?thesis using one by (simp add: clamped_bound_cases)
  next
    case 3
    from int obtain m :: int where m: "fl (of_int n) = of_int m" by blast
    have "max 1 (of_int m :: rat) = of_int (max 1 m)" by (simp add: max_def)
    then have "is_positive_integer (Some (Number (Num (max 1 (fl (of_int n))))))"
      unfolding is_positive_integer_def m by (intro exI[of _ "max 1 m"]) simp
    then show ?thesis by (simp add: 3 clamped_bound_cases)
  qed
qed

text \<open>
  A settings change keeps both bounds integers of at least 1 whenever the digits of the
  input denote a finite number (a double nearest to an integer is an integer).
\<close>

lemma setting_change_keeps_invariant_when_finite:
  assumes inv: "settings_invariant (settings s)"
    and int: "\<forall>n::int. \<exists>m::int. fl (of_int n) = of_int m"
    and fin: "parseInt fl (target_value e) \<noteq> PosInf"
  shows "settings_invariant (settings (handleSettingChange parseFloat fl e s))"
  using inv clamped_bound_integer[OF int fin]
  by (auto simp: settings_invariant_def handleSettingChange_def Let_def update_conv')

text \<open>
  Claim C10 says that after every settings change processed by \<open>handleSettingChange\<close> the
  stored \<open>maxWidth\<close> and \<open>maxHeight\<close> are integers of at least 1. For the input of the
  digit 1 followed by 400 zeros in the field \<open>maxWidth\<close>, \<open>parseInt\<close> returns
  \<open>Infinity\<close>, which is truthy and the larger argument of \<open>Math.max\<close>: the stored
  \<open>maxWidth\<close> is \<open>Infinity\<close>, and the invariant, which held before, is lost.
\<close>

theorem overflowing_bound_is_stored_as_infinity:
  "settings_invariant (settings initial_state) \<and>
   map_of (settings (handleSettingChange parseFloat fl
      \<lparr>target_name = ''maxWidth'', target_value = CHR ''1'' # replicate 400 CHR ''0'',
       target_type = ''number''\<rparr> initial_state)) ''maxWidth'' = Some (Number PosInf) \<and>
   \<not> settings_invariant (settings (handleSettingChange parseFloat fl
      \<lparr>target_name = ''maxWidth'', target_value = CHR ''1'' # replicate 400 CHR ''0'',
       target_type = ''number''\<rparr> initial_state))"
proof -
  have a: "is_positive_integer (Some (Number (Num 800)))"
    unfolding is_positive_integer_def by (intro exI[of _ 800]) simp
  have b: "is_positive_integer (Some (Number (Num 600)))"
    unfolding is_positive_integer_def by (intro exI[of _ 600]) simp
  have inv: "settings_invariant (settings initial_state)"
    using a b by (simp add: settings_invariant_def initial_state_def)
  have stored: "map_of (settings (handleSettingChange parseFloat fl
      \<lparr>target_name = ''maxWidth'', target_value = CHR ''1'' # replicate 400 CHR ''0'',
       target_type = ''number''\<rparr> initial_state)) ''maxWidth'' = Some (Number PosInf)"
    by (simp add: handleSettingChange_def Let_def update_conv' parseInt_overflow js_or_def
        del: replicate.simps)
  have "\<not> is_positive_integer (Some (Number PosInf))"
    by (simp add: is_positive_integer_def)
  with inv stored show ?thesis by (simp add: settings_invariant_def)
qed

section \<open>Properties of the debounced reprocessing\<close>

text \<open>
  Time is discrete here, in milliseconds, and an event happens at its time: the model
  covers the order in which the timeouts and the effects run, not the latency of the
  browser.
\<close>

lemma settled_iff: "settled c \<longleftrightarrow> handler (debouncedSettings c) = None \<and> synced c"
  by (simp add: settled_def synced_def)

lemma advance_quiet:
  assumes "quiet_until T c" and "t \<le> T"
  shows "advance t c = c\<lparr>now := t\<rparr>"
  using assms by (auto simp: advance_def quiet_until_def split: option.splits)

lemma handleSettingChange_source [simp]:
  "originalImageBase64 (handleSettingChange parseFloat fl e s) = originalImageBase64 s"
  by (simp add: handleSettingChange_def Let_def)

text \<open>
  One edit while no timeout is due: the settings are a new object, the timeout is set anew
  for 500 ms later, and neither the debounced value nor the calls change.
\<close>

lemma change_step:
  fixes parseFloat :: "string \<Rightarrow> jsnum" and fl :: rounding and e :: change_event
  assumes sy: "synced c" and q: "quiet_until T c" and t: "t \<le> T"
  defines "c' \<equiv> step parseFloat fl (SettingChange t e) c"
  shows "cells c' = handleSettingChange parseFloat fl e (cells c)"
    and "settings_addr c' = next_addr c"
    and "handler (debouncedSettings c') = Some (t + 500, (next_addr c, settings (cells c')))"
    and "debouncedValue (debouncedSettings c') = debouncedValue (debouncedSettings c)"
    and "calls c' = calls c"
    and "synced c'"
  using sy unfolding c'_def step.simps advance_quiet[OF q t]
  by (simp_all add: on_setting_change_def render_def useDebounce_effect_def
      reprocess_effect_def synced_def Let_def)


lemma run_append:
  "run parseFloat fl (xs @ ys) c = run parseFloat fl ys (run parseFloat fl xs c)"
  by (induction xs arbitrary: c) simp_all

text \<open>A sequence of edits, none of which lets the pending timeout run.\<close>

lemma edits_run:
  fixes parseFloat :: "string \<Rightarrow> jsnum" and fl :: rounding
  assumes "synced c" and "quiet_until T c"
    and "\<forall>te \<in> set edits. fst te \<le> T \<and> T < fst te + 500"
  defines "c' \<equiv> run parseFloat fl (map edit_event edits) c"
  shows "synced c' \<and> quiet_until T c' \<and> calls c' = calls c \<and>
         debouncedValue (debouncedSettings c') = debouncedValue (debouncedSettings c) \<and>
         settings (cells c') = settings_after parseFloat fl edits (cells c) \<and>
         originalImageBase64 (cells c') = originalImageBase64 (cells c) \<and>
         (edits \<noteq> [] \<longrightarrow>
            handler (debouncedSettings c') =
              Some (fst (last edits) + 500, (settings_addr c', settings (cells c'))) \<and>
            fst (debouncedValue (debouncedSettings c')) < settings_addr c')"
  using assms(1-3) unfolding c'_def
proof (induction edits arbitrary: c)
  case Nil
  then show ?case by (simp add: settings_after_def)
next
  case (Cons te edits)
  obtain t e where te: "te = (t, e)" by (cases te)
  let ?c1 = "step parseFloat fl (SettingChange t e) c"
  have t: "t \<le> T" "T < t + 500" using Cons.prems(3) by (simp_all add: te)
  note st = change_step[OF Cons.prems(1,2) t(1), of parseFloat fl e]
  have q1: "quiet_until T ?c1" using t(2) unfolding quiet_until_def st(3) by simp
  have rest: "\<forall>te \<in> set edits. fst te \<le> T \<and> T < fst te + 500"
    using Cons.prems(3) by simp
  note ih = Cons.IH[OF st(6) q1 rest]
  have small: "fst (debouncedValue (debouncedSettings c)) < next_addr c"
    using Cons.prems(1) by (simp add: synced_def)
  let ?r = "run parseFloat fl (map edit_event edits) ?c1"
  have unroll: "run parseFloat fl (map edit_event (te # edits)) c = ?r"
    by (simp add: te del: step.simps)
  have fold: "settings_after parseFloat fl (te # edits) (cells c) =
      settings_after parseFloat fl edits (cells ?c1)"
    by (simp add: settings_after_def te st(1) del: step.simps)
  have sy_r: "synced ?r" using ih by (elim conjE)
  have q_r: "quiet_until T ?r" using ih by (elim conjE)
  have calls_r: "calls ?r = calls ?c1" using ih by (elim conjE)
  have deb_r: "debouncedValue (debouncedSettings ?r) = debouncedValue (debouncedSettings ?c1)"
    using ih by (elim conjE)
  have set_r: "settings (cells ?r) = settings_after parseFloat fl edits (cells ?c1)"
    using ih by (elim conjE)
  have src_r: "originalImageBase64 (cells ?r) = originalImageBase64 (cells ?c1)"
    using ih by (elim conjE)
  have last_ih: "edits \<noteq> [] \<longrightarrow>
      handler (debouncedSettings ?r) =
        Some (fst (last edits) + 500, (settings_addr ?r, settings (cells ?r))) \<and>
      fst (debouncedValue (debouncedSettings ?r)) < settings_addr ?r"
    using ih by (elim conjE)
  have src_1: "originalImageBase64 (cells ?c1) = originalImageBase64 (cells c)"
    unfolding st(1) by simp
  have last_r: "handler (debouncedSettings ?r) =
        Some (fst (last (te # edits)) + 500, (settings_addr ?r, settings (cells ?r))) \<and>
      fst (debouncedValue (debouncedSettings ?r)) < settings_addr ?r"
  proof (cases "edits = []")
    case True
    have "?r = ?c1" unfolding True by simp
    then show ?thesis
      using st(2,3,4) small by (simp add: te True del: step.simps)
  next
    case False
    from last_ih False have "handler (debouncedSettings ?r) =
        Some (fst (last edits) + 500, (settings_addr ?r, settings (cells ?r))) \<and>
      fst (debouncedValue (debouncedSettings ?r)) < settings_addr ?r" by (rule mp)
    then show ?thesis by (simp only: last_ConsR[OF False])
  qed
  have "synced ?r \<and> quiet_until T ?r \<and> calls ?r = calls c \<and>
      debouncedValue (debouncedSettings ?r) = debouncedValue (debouncedSettings c) \<and>
      settings (cells ?r) = settings_after parseFloat fl edits (cells ?c1) \<and>
      originalImageBase64 (cells ?r) = originalImageBase64 (cells c) \<and>
      (te # edits \<noteq> [] \<longrightarrow>
        handler (debouncedSettings ?r) =
          Some (fst (last (te # edits)) + 500, (settings_addr ?r, settings (cells ?r))) \<and>
        fst (debouncedValue (debouncedSettings ?r)) < settings_addr ?r)"
    using sy_r q_r last_r
    by (simp only: calls_r deb_r set_r src_r src_1 st(4) st(5) simp_thms)
  then show ?case unfolding unroll fold .
qed

text \<open>
  The timeout runs: the debounced value becomes the current settings object, and the
  reprocessing effect calls \<open>processImage\<close> once.
\<close>

lemma final_wait:
  assumes sy: "synced c"
    and h: "handler (debouncedSettings c) = Some (due, (settings_addr c, settings (cells c)))"
    and due: "due \<le> T"
    and new: "fst (debouncedValue (debouncedSettings c)) < settings_addr c"
    and src: "originalImageBase64 (cells c) = Some src" "src \<noteq> []"
  shows "calls (advance T c) =
           calls c @ [(src, map_of (settings (cells c)) ''quality'',
                       map_of (settings (cells c)) ''maxWidth'',
                       map_of (settings (cells c)) ''maxHeight'')] \<and>
         debouncedValue (debouncedSettings (advance T c)) =
           (settings_addr c, settings (cells c)) \<and>
         handler (debouncedSettings (advance T c)) = None"
proof -
  have differs: "debouncedValue (debouncedSettings c) \<noteq> (settings_addr c, settings (cells c))"
    using new by (cases "debouncedValue (debouncedSettings c)") auto
  show ?thesis
    using sy h due src differs
    by (simp add: advance_def on_timeout_def handler_fires_def render_def
        useDebounce_effect_def reprocess_effect_def synced_def Let_def)
qed

lemma final_wait_settled:
  assumes sy: "synced c"
    and h: "handler (debouncedSettings c) = Some (due, (settings_addr c, settings (cells c)))"
    and due: "due \<le> T"
  shows "settled (advance T c)"
  using sy h due
  by (simp add: advance_def on_timeout_def handler_fires_def render_def
      useDebounce_effect_def reprocess_effect_def synced_def settled_def Let_def
      split: option.splits)

text \<open>Before the timeout is due, time passes and nothing else changes.\<close>

lemma wait_before_due:
  assumes "handler (debouncedSettings c) = Some (due, v)" and "T' < due"
  shows "advance T' c = c\<lparr>now := T'\<rparr>"
  using assms by (simp add: advance_def)

lemma sorted_between_hd_last:
  fixes ts :: "nat list"
  assumes "sorted ts" and "x \<in> set ts"
  shows "hd ts \<le> x \<and> x \<le> last ts"
  using assms
proof (induction ts)
  case Nil
  then show ?case by simp
next
  case (Cons a ts)
  show ?case
  proof (cases "ts = []")
    case True
    then show ?thesis using Cons.prems by simp
  next
    case False
    from Cons.prems have sorted: "sorted ts" and le: "\<forall>y \<in> set ts. a \<le> y" by simp_all
    have "last ts \<in> set ts" using False by simp
    then have "a \<le> last ts" using le by blast
    moreover have "x \<le> last ts" if "x \<in> set ts" using Cons.IH[OF sorted that] by simp
    ultimately show ?thesis using Cons.prems(2) le False by auto
  qed
qed

text \<open>
  Claim C9. On a component that holds a source image and has no timeout pending, a
  sequence of settings edits that all arrive within the debounce window of 500 ms triggers
  exactly one reprocessing run, and it uses only the final settings. After every edit of
  the sequence, and at every time less than 500 ms after the last edit, no run has been
  triggered and the debounced view of the settings still has its old value: it takes the
  new value only after that value has been stable for the full delay. At every time from
  500 ms after the last edit on, the one run has been called, with the settings as they are
  after the last edit, the debounced view holds these settings, and the component is
  settled again, so that no further run follows.
\<close>

theorem edits_within_window_trigger_one_run:
  fixes parseFloat :: "string \<Rightarrow> jsnum" and fl :: rounding
  assumes settled: "settled c"
    and src: "originalImageBase64 (cells c) = Some src" "src \<noteq> []"
    and edits: "edits \<noteq> []" "sorted (map fst edits)" "now c \<le> fst (hd edits)"
    and window: "fst (last edits) < fst (hd edits) + 500"
    and wait: "fst (last edits) + 500 \<le> T"
  shows "(\<forall>n. calls (run parseFloat fl (map edit_event (take n edits)) c) = calls c \<and>
              debouncedValue (debouncedSettings
                (run parseFloat fl (map edit_event (take n edits)) c)) =
                debouncedValue (debouncedSettings c)) \<and>
         (\<forall>T'. fst (last edits) \<le> T' \<and> T' < fst (last edits) + 500 \<longrightarrow>
              calls (run parseFloat fl (map edit_event edits @ [TimePasses T']) c) =
                calls c \<and>
              debouncedValue (debouncedSettings
                (run parseFloat fl (map edit_event edits @ [TimePasses T']) c)) =
                debouncedValue (debouncedSettings c)) \<and>
         calls (run parseFloat fl (map edit_event edits @ [TimePasses T]) c) =
           calls c @
             [(src, map_of (settings_after parseFloat fl edits (cells c)) ''quality'',
               map_of (settings_after parseFloat fl edits (cells c)) ''maxWidth'',
               map_of (settings_after parseFloat fl edits (cells c)) ''maxHeight'')] \<and>
         snd (debouncedValue (debouncedSettings (run parseFloat fl
           (map edit_event edits @ [TimePasses T]) c))) =
           settings_after parseFloat fl edits (cells c) \<and>
         settled (run parseFloat fl (map edit_event edits @ [TimePasses T]) c)"
proof -
  let ?T = "fst (last edits)"
  let ?c' = "run parseFloat fl (map edit_event edits) c"
  have sy: "synced c" and quiet: "quiet_until ?T c"
    using settled by (simp_all add: settled_iff quiet_until_def)
  have within: "\<forall>te \<in> set edits. fst te \<le> ?T \<and> ?T < fst te + 500"
  proof
    fix te assume "te \<in> set edits"
    then have "fst te \<in> set (map fst edits)" by simp
    from sorted_between_hd_last[OF edits(2) this]
    have "fst (hd edits) \<le> fst te" and "fst te \<le> ?T"
      using edits(1) by (simp_all add: hd_map last_map)
    then show "fst te \<le> ?T \<and> ?T < fst te + 500" using window by simp
  qed
  have prefixes: "\<forall>n. calls (run parseFloat fl (map edit_event (take n edits)) c) = calls c \<and>
      debouncedValue (debouncedSettings
        (run parseFloat fl (map edit_event (take n edits)) c)) =
        debouncedValue (debouncedSettings c)"
  proof
    fix n
    have "\<forall>te \<in> set (take n edits). fst te \<le> ?T \<and> ?T < fst te + 500"
      using within set_take_subset[of n edits] by (meson subsetD)
    note p = edits_run[OF sy quiet this, of parseFloat fl]
    have "calls (run parseFloat fl (map edit_event (take n edits)) c) = calls c"
      using p by (elim conjE)
    moreover have "debouncedValue (debouncedSettings
        (run parseFloat fl (map edit_event (take n edits)) c)) =
        debouncedValue (debouncedSettings c)"
      using p by (elim conjE)
    ultimately show "calls (run parseFloat fl (map edit_event (take n edits)) c) = calls c \<and>
      debouncedValue (debouncedSettings
        (run parseFloat fl (map edit_event (take n edits)) c)) =
        debouncedValue (debouncedSettings c)" by (rule conjI)
  qed
  note r = edits_run[OF sy quiet within, of parseFloat fl]
  have sy': "synced ?c'" using r by (elim conjE)
  have same_calls: "calls ?c' = calls c" using r by (elim conjE)
  have same_value:
    "debouncedValue (debouncedSettings ?c') = debouncedValue (debouncedSettings c)"
    using r by (elim conjE)
  have st': "settings (cells ?c') = settings_after parseFloat fl edits (cells c)"
    using r by (elim conjE)
  have "originalImageBase64 (cells ?c') = originalImageBase64 (cells c)"
    using r by (elim conjE)
  then have src': "originalImageBase64 (cells ?c') = Some src"
    using src(1) by simp
  have "edits \<noteq> [] \<longrightarrow>
      handler (debouncedSettings ?c') =
        Some (?T + 500, (settings_addr ?c', settings (cells ?c'))) \<and>
      fst (debouncedValue (debouncedSettings ?c')) < settings_addr ?c'"
    using r by (elim conjE)
  from this edits(1) have pending: "handler (debouncedSettings ?c') =
        Some (?T + 500, (settings_addr ?c', settings (cells ?c'))) \<and>
      fst (debouncedValue (debouncedSettings ?c')) < settings_addr ?c'" by (rule mp)
  have h': "handler (debouncedSettings ?c') =
        Some (?T + 500, (settings_addr ?c', settings (cells ?c')))"
    using pending by (rule conjunct1)
  have new': "fst (debouncedValue (debouncedSettings ?c')) < settings_addr ?c'"
    using pending by (rule conjunct2)
  have fin: "run parseFloat fl (map edit_event edits @ [TimePasses t]) c = advance t ?c'" for t
    by (simp add: run_append)
  have early: "\<forall>T'. ?T \<le> T' \<and> T' < ?T + 500 \<longrightarrow>
      calls (run parseFloat fl (map edit_event edits @ [TimePasses T']) c) = calls c \<and>
      debouncedValue (debouncedSettings
        (run parseFloat fl (map edit_event edits @ [TimePasses T']) c)) =
        debouncedValue (debouncedSettings c)"
  proof (intro allI impI)
    fix T' assume "?T \<le> T' \<and> T' < ?T + 500"
    then have "T' < ?T + 500" by simp
    from wait_before_due[OF h' this]
    have "advance T' ?c' = ?c'\<lparr>now := T'\<rparr>" .
    then show "calls (run parseFloat fl (map edit_event edits @ [TimePasses T']) c) =
        calls c \<and>
      debouncedValue (debouncedSettings
        (run parseFloat fl (map edit_event edits @ [TimePasses T']) c)) =
        debouncedValue (debouncedSettings c)"
      unfolding fin by (simp add: same_calls same_value)
  qed
  note w = final_wait[OF sy' h' wait new' src' src(2)]
  have late: "calls (advance T ?c') =
      calls c @
        [(src, map_of (settings_after parseFloat fl edits (cells c)) ''quality'',
          map_of (settings_after parseFloat fl edits (cells c)) ''maxWidth'',
          map_of (settings_after parseFloat fl edits (cells c)) ''maxHeight'')] \<and>
    snd (debouncedValue (debouncedSettings (advance T ?c'))) =
      settings_after parseFloat fl edits (cells c)"
    using same_calls same_value w by (simp only: st' snd_conv simp_thms)
  have again: "settled (advance T ?c')"
    by (rule final_wait_settled[OF sy' h' wait])
  show ?thesis
    using prefixes early late again unfolding fin by (simp only: simp_thms)
qed

theorem edits_within_window_trigger_one_run_witness:
  "calls (run (\<lambda>_. NaN) (\<lambda>x. x) (map edit_event (take 2 three_edits)) settled_with_result) =
     calls settled_with_result \<and>
   calls (run (\<lambda>_. NaN) (\<lambda>x. x) (map edit_event three_edits @ [TimePasses 1949])
     settled_with_result) = calls settled_with_result \<and>
   calls (run (\<lambda>_. NaN) (\<lambda>x. x) (map edit_event three_edits @ [TimePasses 1950])
     settled_with_result) =
     calls settled_with_result @
       [(''data:image/jpeg;base64,AAAA'', Some (Number (Num (8 / 10))),
         Some (Number (Num 400)), Some (Number (Num 600)))] \<and>
   settled (run (\<lambda>_. NaN) (\<lambda>x. x) (map edit_event three_edits @ [TimePasses 1950])
     settled_with_result)"
proof -
  have settled: "settled settled_with_result"
    by (simp add: settled_def settled_with_result_def state_with_result_def)
  have src: "originalImageBase64 (cells settled_with_result) =
      Some ''data:image/jpeg;base64,AAAA''"
    by code_simp
  have ne: "''data:image/jpeg;base64,AAAA'' \<noteq> []" by simp
  have edits: "three_edits \<noteq> []" "sorted (map fst three_edits)"
    "now settled_with_result \<le> fst (hd three_edits)"
    "fst (last three_edits) < fst (hd three_edits) + 500"
    "fst (last three_edits) + 500 \<le> 1950"
    by (simp_all add: three_edits_def settled_with_result_def)
  have final: "settings_after (\<lambda>_. NaN) (\<lambda>x. x) three_edits (cells settled_with_result) =
      [(''quality'', Number (Num (8 / 10))), (''maxWidth'', Number (Num 400)),
       (''maxHeight'', Number (Num 600))]"
    by code_simp
  have before: "fst (last three_edits) \<le> 1949 \<and> 1949 < fst (last three_edits) + 500"
    by (simp add: three_edits_def)
  note t = edits_within_window_trigger_one_run
    [OF settled src ne edits, of "\<lambda>_. NaN" "\<lambda>x. x"]
  note prefix = t[THEN conjunct1, THEN spec, of 2, THEN conjunct1]
  note early = t[THEN conjunct2, THEN conjunct1, THEN spec, of 1949, THEN mp, OF before,
      THEN conjunct1]
  note late = t[THEN conjunct2, THEN conjunct2, THEN conjunct1]
  note again = t[THEN conjunct2, THEN conjunct2, THEN conjunct2, THEN conjunct2]
  show ?thesis
    using prefix early late again unfolding final by simp
qed

end
